theory Spec2Isabelle
  imports Complex_Main "HOL-Library.Word"
begin

unbundle bit_operations_syntax

section \<open>Data model\<close>

text \<open>
  The anonymization engine of \<^verbatim>\<open>scripts/anonymize.py\<close> works on pandas data frames with
  the columns that \<^verbatim>\<open>scripts/generate_dataset.py\<close> produces: \<^verbatim>\<open>Patient_ID\<close>, \<^verbatim>\<open>Name\<close>,
  \<^verbatim>\<open>Age\<close>, \<^verbatim>\<open>Gender\<close>, \<^verbatim>\<open>ZIP_Code\<close> and \<^verbatim>\<open>Diagnosis\<close>. A frame is modelled row by row.
  A cell holds a Python integer, a string (also the label of a categorical produced by
  \<^verbatim>\<open>pd.cut\<close>) or the missing value \<^verbatim>\<open>NaN\<close>.

  Assumptions about pandas that the model writes out:
  \<^item> \<^verbatim>\<open>groupby(keys, observed=True)\<close> keeps the default \<^verbatim>\<open>dropna=True\<close>: a row with a
    missing value in one of the key columns belongs to no group;
  \<^item> \<^verbatim>\<open>groupby\<close> with an empty key list raises \<^verbatim>\<open>ValueError\<close>, with an unknown column
    \<^verbatim>\<open>KeyError\<close>;
  \<^item> the groups are listed in the order in which their keys first occur (pandas lists
    them in key order; no statement below depends on the order);
  \<^item> the dtype of a column is read off its cells: numeric when the column is not empty
    and holds only integers and \<^verbatim>\<open>NaN\<close>;
  \<^item> floating-point results are exact rationals.
\<close>

datatype cell = IntCell int | StrCell string | NaN

datatype error = KeyError | ValueError | TypeError | AttributeError | IndexError | ZeroDivisionError

record patient =
  Patient_ID :: cell
  Name :: cell
  Age :: cell
  Gender :: cell
  ZIP_Code :: cell
  Diagnosis :: cell

type_synonym dataframe = "patient list"

text \<open>Column access by name, \<^verbatim>\<open>df[name]\<close>: \<open>None\<close> stands for the \<^verbatim>\<open>KeyError\<close> of an unknown column.\<close>

definition column :: "string \<Rightarrow> (patient \<Rightarrow> cell) option" where
  "column c =
     (if c = ''Patient_ID'' then Some Patient_ID
      else if c = ''Name'' then Some Name
      else if c = ''Age'' then Some Age
      else if c = ''Gender'' then Some Gender
      else if c = ''ZIP_Code'' then Some ZIP_Code
      else if c = ''Diagnosis'' then Some Diagnosis
      else None)"

text \<open>Column assignment by name, \<^verbatim>\<open>row[name] = v\<close>, for a column of the frame.\<close>

definition set_column :: "string \<Rightarrow> cell \<Rightarrow> patient \<Rightarrow> patient" where
  "set_column c v r =
     (if c = ''Patient_ID'' then r\<lparr>Patient_ID := v\<rparr>
      else if c = ''Name'' then r\<lparr>Name := v\<rparr>
      else if c = ''Age'' then r\<lparr>Age := v\<rparr>
      else if c = ''Gender'' then r\<lparr>Gender := v\<rparr>
      else if c = ''ZIP_Code'' then r\<lparr>ZIP_Code := v\<rparr>
      else if c = ''Diagnosis'' then r\<lparr>Diagnosis := v\<rparr>
      else r)"

subsection \<open>Python helpers\<close>

text \<open>\<^verbatim>\<open>xs[i]\<close> for a Python list: a negative index counts from the end.\<close>

definition py_get :: "'a list \<Rightarrow> int \<Rightarrow> error + 'a" where
  "py_get xs i =
     (if 0 \<le> i \<and> i < int (length xs) then Inr (xs ! nat i)
      else if i < 0 \<and> - int (length xs) \<le> i then Inr (xs ! nat (int (length xs) + i))
      else Inl IndexError)"

text \<open>\<^verbatim>\<open>str(n)\<close> for an integer.\<close>

definition digit_char :: "nat \<Rightarrow> char" where
  "digit_char d = char_of (48 + d)"

fun digits_of :: "nat \<Rightarrow> string" where
  "digits_of n = (if n < 10 then [digit_char n] else digits_of (n div 10) @ [digit_char (n mod 10)])"

definition str_int :: "int \<Rightarrow> string" where
  "str_int i = (if i < 0 then CHR ''-'' # digits_of (nat (- i)) else digits_of (nat i))"

text \<open>\<^verbatim>\<open>series.astype(str)\<close>, cell by cell.\<close>

fun astype_str :: "cell \<Rightarrow> string" where
  "astype_str (IntCell i) = str_int i"
| "astype_str (StrCell s) = s"
| "astype_str NaN = ''nan''"

section \<open>Generalization functions\<close>

text \<open>
  \<^verbatim>\<open>pd.cut(x, bins=bins, labels=labels, right=False)\<close> on one value: the label of the
  half-open interval \<open>[lo, hi)\<close> that holds the value, \<^verbatim>\<open>NaN\<close> when no interval does.
\<close>

fun cut_value :: "int list \<Rightarrow> string list \<Rightarrow> int \<Rightarrow> cell" where
  "cut_value (lo # hi # bins) (l # labels) x =
     (if lo \<le> x \<and> x < hi then StrCell l else cut_value (hi # bins) labels x)"
| "cut_value _ _ _ = NaN"

fun cut_cell :: "int list \<Rightarrow> string list \<Rightarrow> cell \<Rightarrow> error + cell" where
  "cut_cell bins labels (IntCell x) = Inr (cut_value bins labels x)"
| "cut_cell bins labels NaN = Inr NaN"
| "cut_cell bins labels (StrCell s) = Inl TypeError"

text \<open>A column operation that may raise: the first error wins, as the exception would.\<close>

fun map_rows :: "(patient \<Rightarrow> error + patient) \<Rightarrow> dataframe \<Rightarrow> error + dataframe" where
  "map_rows f [] = Inr []"
| "map_rows f (r # rs) =
     (case f r of
        Inl e \<Rightarrow> Inl e
      | Inr r' \<Rightarrow> (case map_rows f rs of Inl e \<Rightarrow> Inl e | Inr rs' \<Rightarrow> Inr (r' # rs')))"

definition generalize_age :: "dataframe \<Rightarrow> int list \<Rightarrow> string list \<Rightarrow> error + dataframe" where
  "generalize_age df bins labels =
     map_rows (\<lambda>r. case cut_cell bins labels (Age r) of
                      Inl e \<Rightarrow> Inl e
                    | Inr c \<Rightarrow> Inr (r\<lparr>Age := c\<rparr>)) df"

definition pad_right :: "nat \<Rightarrow> char \<Rightarrow> string \<Rightarrow> string" where
  "pad_right w c s = s @ replicate (w - length s) c"

definition generalize_zip :: "dataframe \<Rightarrow> nat \<Rightarrow> dataframe" where
  "generalize_zip df precision =
     map (\<lambda>r. r\<lparr>ZIP_Code := StrCell (pad_right 5 (CHR ''*'') (take precision (astype_str (ZIP_Code r))))\<rparr>) df"

section \<open>Equivalence classes and k-anonymity\<close>

text \<open>
  The result of \<^verbatim>\<open>df.groupby(qis, observed=True)\<close>: the groups, each a key (the tuple of
  the key columns' values) with the positions of its rows.
\<close>

type_synonym groups = "(cell list \<times> nat list) list"

fun add_member :: "cell list \<Rightarrow> nat \<Rightarrow> groups \<Rightarrow> groups" where
  "add_member key i [] = [(key, [i])]"
| "add_member key i ((key', members) # gs) =
     (if key = key' then (key', members @ [i]) # gs else (key', members) # add_member key i gs)"

text \<open>The rows are visited in order; a row whose key holds \<^verbatim>\<open>NaN\<close> is dropped.\<close>

fun group_rows :: "cell list list \<Rightarrow> nat \<Rightarrow> groups \<Rightarrow> groups" where
  "group_rows [] i gs = gs"
| "group_rows (key # keys) i gs =
     group_rows keys (Suc i) (if NaN \<in> set key then gs else add_member key i gs)"

fun key_columns :: "string list \<Rightarrow> error + (patient \<Rightarrow> cell) list" where
  "key_columns [] = Inr []"
| "key_columns (q # qs) =
     (case column q of
        None \<Rightarrow> Inl KeyError
      | Some f \<Rightarrow> (case key_columns qs of Inl e \<Rightarrow> Inl e | Inr fs \<Rightarrow> Inr (f # fs)))"

definition get_equivalence_classes :: "dataframe \<Rightarrow> string list \<Rightarrow> error + groups" where
  "get_equivalence_classes df qis =
     (if qis = [] then Inl ValueError
      else case key_columns qis of
             Inl e \<Rightarrow> Inl e
           | Inr fs \<Rightarrow> Inr (group_rows (map (\<lambda>r. map (\<lambda>f. f r) fs) df) 0 []))"

text \<open>\<^verbatim>\<open>eq_classes.size()\<close>: the number of rows of each group.\<close>

definition group_sizes :: "groups \<Rightarrow> nat list" where
  "group_sizes gs = map (\<lambda>g. length (snd g)) gs"

text \<open>
  \<^verbatim>\<open>sizes.min() >= k\<close>: the minimum of an empty series is \<^verbatim>\<open>NaN\<close>, and every comparison
  with \<^verbatim>\<open>NaN\<close> is false.
\<close>

definition min_at_least :: "nat list \<Rightarrow> int \<Rightarrow> bool" where
  "min_at_least sizes k = (case sizes of [] \<Rightarrow> False | s # ss \<Rightarrow> k \<le> int (fold min ss s))"

definition check_k_anonymity :: "dataframe \<Rightarrow> string list \<Rightarrow> int \<Rightarrow> error + bool" where
  "check_k_anonymity df qis k =
     (if df = [] then Inr True
      else case get_equivalence_classes df qis of
             Inl e \<Rightarrow> Inl e
           | Inr eq_classes \<Rightarrow> Inr (min_at_least (group_sizes eq_classes) k))"

text \<open>
  The generalization tables of \<^verbatim>\<open>apply_k_anonymity\<close>: four bin sets for the age, from decades
  to the whole range, and four retained-prefix lengths for the postal code.
\<close>

definition age_generalizations :: "(int list \<times> string list) list" where
  "age_generalizations =
     [([0, 20, 30, 40, 50, 60, 70, 80, 90, 100],
       [''0-19'', ''20-29'', ''30-39'', ''40-49'', ''50-59'', ''60-69'', ''70-79'', ''80-89'', ''90-99'']),
      ([0, 25, 50, 75, 100],
       [''0-24'', ''25-49'', ''50-74'', ''75-99'']),
      ([0, 50, 100],
       [''0-49'', ''50-99'']),
      ([0, 100],
       [''0-99''])]"

definition zip_generalizations :: "nat list" where
  "zip_generalizations = [4, 3, 2, 1]"

text \<open>
  The body of the \<^verbatim>\<open>while\<close> loop up to \<^verbatim>\<open>anonymized_df = temp_df.copy()\<close>: the frame
  generated at \<^verbatim>\<open>gen_level\<close>. It starts from \<^verbatim>\<open>df.copy()\<close>, the frame the caller gave.
\<close>

definition generalization_attempt :: "dataframe \<Rightarrow> string list \<Rightarrow> int \<Rightarrow> error + dataframe" where
  "generalization_attempt df qis gen_level =
     (let temp_df = df;
          age_level_idx = gen_level div 2;
          zip_level_idx = (gen_level - 1) div 2
      in case (if ''Age'' \<in> set qis
               then (let current_age_level = min age_level_idx (int (length age_generalizations) - 1)
                     in case py_get age_generalizations current_age_level of
                          Inl e \<Rightarrow> Inl e
                        | Inr (age_bins, age_labels) \<Rightarrow> generalize_age temp_df age_bins age_labels)
               else Inr temp_df) of
           Inl e \<Rightarrow> Inl e
         | Inr temp_df \<Rightarrow>
             (if ''ZIP_Code'' \<in> set qis \<and> zip_level_idx \<ge> 0
              then (let current_zip_level = min zip_level_idx (int (length zip_generalizations) - 1)
                    in case py_get zip_generalizations current_zip_level of
                         Inl e \<Rightarrow> Inl e
                       | Inr zip_prec \<Rightarrow> Inr (generalize_zip temp_df zip_prec))
              else Inr temp_df))"

text \<open>
  The two ways in which \<^verbatim>\<open>apply_k_anonymity\<close> returns: after the message
  \<^verbatim>\<open>k=... anonymity achieved.\<close>, or from inside the loop after the message
  \<^verbatim>\<open>Error: Could not achieve k-anonymity ...\<close>. Both return \<^verbatim>\<open>anonymized_df\<close> and nothing else;
  the model of the loop also gives the final \<^verbatim>\<open>gen_level\<close> and the way out, which the
  caller of the Python function does not get.
\<close>

datatype outcome = Achieved | CapReached

function k_anonymity_loop ::
  "dataframe \<Rightarrow> string list \<Rightarrow> int \<Rightarrow> dataframe \<Rightarrow> int \<Rightarrow> error + (dataframe \<times> int \<times> outcome)" where
  "k_anonymity_loop df qis k anonymized_df gen_level =
     (case check_k_anonymity anonymized_df qis k of
        Inl e \<Rightarrow> Inl e
      | Inr satisfied \<Rightarrow>
          if satisfied then Inr (anonymized_df, gen_level, Achieved)
          else (case generalization_attempt df qis gen_level of
                  Inl e \<Rightarrow> Inl e
                | Inr temp_df \<Rightarrow>
                    if gen_level + 1 > 10 then Inr (temp_df, gen_level + 1, CapReached)
                    else k_anonymity_loop df qis k temp_df (gen_level + 1)))"
  by pat_completeness auto
termination
  by (relation "measure (\<lambda>(df, qis, k, anonymized_df, gen_level). nat (11 - gen_level))") auto

definition apply_k_anonymity :: "dataframe \<Rightarrow> string list \<Rightarrow> int \<Rightarrow> error + dataframe" where
  "apply_k_anonymity df qis k =
     (case k_anonymity_loop df qis k df 0 of
        Inl e \<Rightarrow> Inl e
      | Inr (anonymized_df, gen_level, how) \<Rightarrow> Inr anonymized_df)"

text \<open>
  The transition of the enforcement state machine in the words of the specification: at
  level \<open>L\<close> the age sub-rung is \<open>floor (L / 2)\<close>, clamped to the last rung of the age table,
  the postal-code sub-rung index is \<open>floor ((L - 1) / 2)\<close>, and every record of the original
  data is rewritten in one pass; a negative postal-code index leaves the postal code alone.
\<close>

definition spec_age_rung :: "int \<Rightarrow> int" where
  "spec_age_rung L = min (L div 2) 3"

definition spec_zip_rung_idx :: "int \<Rightarrow> int" where
  "spec_zip_rung_idx L = (L - 1) div 2"

definition spec_generalize_record :: "string list \<Rightarrow> int \<Rightarrow> int \<Rightarrow> patient \<Rightarrow> error + patient" where
  "spec_generalize_record qis ageRung zipRungIdx r =
     (case (if ''Age'' \<in> set qis
            then cut_cell (fst (age_generalizations ! nat ageRung))
                          (snd (age_generalizations ! nat ageRung)) (Age r)
            else Inr (Age r)) of
        Inl e \<Rightarrow> Inl e
      | Inr a \<Rightarrow>
          Inr (r\<lparr>Age := a,
                 ZIP_Code :=
                   (if ''ZIP_Code'' \<in> set qis \<and> 0 \<le> zipRungIdx
                    then StrCell (pad_right 5 (CHR ''*'')
                           (take (zip_generalizations ! nat (min zipRungIdx 3)) (astype_str (ZIP_Code r))))
                    else ZIP_Code r)\<rparr>))"

definition spec_transition :: "dataframe \<Rightarrow> string list \<Rightarrow> int \<Rightarrow> error + dataframe" where
  "spec_transition original qis L =
     map_rows (spec_generalize_record qis (spec_age_rung L) (spec_zip_rung_idx L)) original"

section \<open>l-diversity\<close>

text \<open>\<^verbatim>\<open>group[sensitive_col].dropna().nunique()\<close> for the rows of one group.\<close>

definition diversity_of :: "(patient \<Rightarrow> cell) \<Rightarrow> dataframe \<Rightarrow> nat list \<Rightarrow> nat" where
  "diversity_of f df members =
     length (remdups (filter (\<lambda>v. v \<noteq> NaN) (map (\<lambda>i. f (df ! i)) members)))"

text \<open>
  The \<^verbatim>\<open>for name, group in eq_classes\<close> loop. The sensitive column is looked up in each
  group, so an unknown column raises only when there is a group.
\<close>

fun failing_groups_loop ::
  "dataframe \<Rightarrow> string \<Rightarrow> int \<Rightarrow> groups \<Rightarrow> (cell list \<times> nat) list \<Rightarrow> error + (cell list \<times> nat) list" where
  "failing_groups_loop df sensitive_col l_val [] failing_groups = Inr failing_groups"
| "failing_groups_loop df sensitive_col l_val ((name, members) # gs) failing_groups =
     (case column sensitive_col of
        None \<Rightarrow> Inl KeyError
      | Some f \<Rightarrow>
          (let diversity = diversity_of f df members
           in failing_groups_loop df sensitive_col l_val gs
                (if int diversity < l_val then failing_groups @ [(name, diversity)]
                 else failing_groups)))"

definition check_l_diversity ::
  "dataframe \<Rightarrow> string \<Rightarrow> string list \<Rightarrow> int \<Rightarrow> error + (bool \<times> (cell list \<times> nat) list)" where
  "check_l_diversity df sensitive_col qis l_val =
     (case get_equivalence_classes df qis of
        Inl e \<Rightarrow> Inl e
      | Inr eq_classes \<Rightarrow>
          (case failing_groups_loop df sensitive_col l_val eq_classes [] of
             Inl e \<Rightarrow> Inl e
           | Inr failing_groups \<Rightarrow> Inr (length failing_groups = 0, failing_groups)))"

section \<open>Risk and utility metrics\<close>


text \<open>
  \<^verbatim>\<open>pd.api.types.is_numeric_dtype\<close>, read off the cells. A column without rows has the object
  dtype, as \<^verbatim>\<open>pd.read_csv\<close> gives it for a file that holds only the header.
\<close>

definition is_numeric_dtype :: "cell list \<Rightarrow> bool" where
  "is_numeric_dtype cs =
     (cs \<noteq> [] \<and> list_all (\<lambda>c. case c of StrCell s \<Rightarrow> False | _ \<Rightarrow> True) cs)"

fun int_values :: "cell list \<Rightarrow> int list" where
  "int_values [] = []"
| "int_values (IntCell i # cs) = i # int_values cs"
| "int_values (c # cs) = int_values cs"

text \<open>\<^verbatim>\<open>series.min()\<close> and \<^verbatim>\<open>series.max()\<close> skip missing values; \<open>None\<close> is the \<^verbatim>\<open>NaN\<close> of a series without values.\<close>

definition series_min :: "cell list \<Rightarrow> int option" where
  "series_min cs = (case int_values cs of [] \<Rightarrow> None | x # xs \<Rightarrow> Some (fold min xs x))"

definition series_max :: "cell list \<Rightarrow> int option" where
  "series_max cs = (case int_values cs of [] \<Rightarrow> None | x # xs \<Rightarrow> Some (fold max xs x))"

text \<open>\<^verbatim>\<open>s.split(sep)\<close> for a one-character separator: always at least one part.\<close>

fun split_on :: "char \<Rightarrow> string \<Rightarrow> string list" where
  "split_on sep [] = [[]]"
| "split_on sep (c # cs) =
     (if c = sep then [] # split_on sep cs
      else (case split_on sep cs of [] \<Rightarrow> [[c]] | p # ps \<Rightarrow> (c # p) # ps))"

text \<open>
  \<^verbatim>\<open>pd.to_numeric(..., errors='coerce')\<close> on one string: a plain decimal numeral is read,
  anything else becomes \<^verbatim>\<open>NaN\<close>. (pandas also reads floats such as \<^verbatim>\<open>2.5\<close>; the values that
  the generalization produces hold none.)
\<close>

definition is_digit :: "char \<Rightarrow> bool" where
  "is_digit c = (48 \<le> (of_char c :: nat) \<and> (of_char c :: nat) \<le> 57)"

definition to_numeric :: "string \<Rightarrow> rat option" where
  "to_numeric s =
     (if s \<noteq> [] \<and> list_all is_digit s
      then Some (of_nat (foldl (\<lambda>a c. 10 * a + (of_char c - 48)) 0 s))
      else None)"

text \<open>
  The interval of one record, from the parts of its value: \<^verbatim>\<open>low\<close>, and \<^verbatim>\<open>high\<close> after
  \<^verbatim>\<open>high.fillna(low)\<close>. With \<^verbatim>\<open>expand=True\<close> the frame of parts is as wide as the longest
  split; a shorter row is filled with \<^verbatim>\<open>None\<close>, which \<^verbatim>\<open>to_numeric\<close> reads as \<^verbatim>\<open>NaN\<close>.
\<close>

definition interval_range :: "nat \<Rightarrow> string list \<Rightarrow> rat option" where
  "interval_range width parts =
     (let low = (case parts of [] \<Rightarrow> None | p0 # ps \<Rightarrow> to_numeric p0);
          high = (if width = 1 then low
                  else (case parts of p0 # p1 # ps \<Rightarrow> to_numeric p1 | _ \<Rightarrow> None));
          high = (case high of None \<Rightarrow> low | Some h \<Rightarrow> Some h)
      in case (low, high) of (Some l, Some h) \<Rightarrow> Some \<bar>h - l\<bar> | _ \<Rightarrow> None)"

text \<open>
  \<^verbatim>\<open>generalized_ranges\<close> of the anonymized age column. For a frame without rows the frame
  of parts has no column, and \<^verbatim>\<open>intervals[0]\<close> raises \<^verbatim>\<open>KeyError\<close>.
\<close>

definition generalized_ranges :: "cell list \<Rightarrow> error + rat option list" where
  "generalized_ranges col =
     (let intervals = map (\<lambda>c. split_on (CHR ''-'') (astype_str c)) col;
          width = fold max (map length intervals) 0
      in if width = 0 then Inl KeyError
         else Inr (map (interval_range width) intervals))"

text \<open>\<^verbatim>\<open>series.sum()\<close> skips \<^verbatim>\<open>NaN\<close>.\<close>

definition sum_skipna :: "rat option list \<Rightarrow> rat" where
  "sum_skipna xs = sum_list (map (\<lambda>x. case x of None \<Rightarrow> 0 | Some v \<Rightarrow> v) xs)"

text \<open>
  One round of the \<^verbatim>\<open>for qi in qis\<close> loop of \<^verbatim>\<open>compute_ncp\<close>: what the round adds to
  \<^verbatim>\<open>total_ncp\<close> (nothing after \<^verbatim>\<open>continue\<close>).
\<close>

definition qi_ncp :: "dataframe \<Rightarrow> dataframe \<Rightarrow> string \<Rightarrow> error + rat" where
  "qi_ncp original_df anonymized_df qi =
     (case column qi of
        None \<Rightarrow> Inl KeyError
      | Some f \<Rightarrow>
          if is_numeric_dtype (map f original_df) \<and> qi = ''Age''
          then (let min_val = series_min (map f original_df);
                    max_val = series_max (map f original_df);
                    total_range = (case (min_val, max_val) of
                                     (Some lo, Some hi) \<Rightarrow> Some (hi - lo)
                                   | _ \<Rightarrow> None)
                in if total_range = Some 0 then Inr 0
                   else (case generalized_ranges (map f anonymized_df) of
                           Inl e \<Rightarrow> Inl e
                         | Inr ranges \<Rightarrow>
                             Inr (sum_skipna
                                    (map (\<lambda>g. case (g, total_range) of
                                                 (Some v, Some t) \<Rightarrow> Some (v / of_int t)
                                               | _ \<Rightarrow> None) ranges))))
          else if qi = ''ZIP_Code''
          then Inr (sum_list (map (\<lambda>r. of_nat (count_list (astype_str (f r)) (CHR ''*'')) / 5)
                                  anonymized_df))
          else Inr 0)"

fun ncp_loop :: "dataframe \<Rightarrow> dataframe \<Rightarrow> string list \<Rightarrow> rat \<Rightarrow> error + rat" where
  "ncp_loop original_df anonymized_df [] total_ncp = Inr total_ncp"
| "ncp_loop original_df anonymized_df (qi # qis) total_ncp =
     (case qi_ncp original_df anonymized_df qi of
        Inl e \<Rightarrow> Inl e
      | Inr v \<Rightarrow> ncp_loop original_df anonymized_df qis (total_ncp + v))"


section \<open>Tokenization\<close>

text \<open>
  \<^verbatim>\<open>tokenize_ids\<close> calls \<^verbatim>\<open>hmac.new(key, msg, hashlib.sha256).hexdigest()\<close> of the Python
  standard library: HMAC (RFC 2104) over SHA-256 (FIPS 180-4), printed as lowercase
  hexadecimal digits. Bytes are 8-bit words; a string is the list of its UTF-8 bytes.
\<close>

type_synonym byte = "8 word"
type_synonym word32 = "32 word"

definition rotr :: "nat \<Rightarrow> word32 \<Rightarrow> word32" where
  "rotr n x = drop_bit n x OR push_bit (32 - n) x"

definition Ch :: "word32 \<Rightarrow> word32 \<Rightarrow> word32 \<Rightarrow> word32" where
  "Ch x y z = (x AND y) XOR (NOT x AND z)"

definition Maj :: "word32 \<Rightarrow> word32 \<Rightarrow> word32 \<Rightarrow> word32" where
  "Maj x y z = (x AND y) XOR (x AND z) XOR (y AND z)"

definition big_sigma0 :: "word32 \<Rightarrow> word32" where
  "big_sigma0 x = rotr 2 x XOR rotr 13 x XOR rotr 22 x"

definition big_sigma1 :: "word32 \<Rightarrow> word32" where
  "big_sigma1 x = rotr 6 x XOR rotr 11 x XOR rotr 25 x"

definition small_sigma0 :: "word32 \<Rightarrow> word32" where
  "small_sigma0 x = rotr 7 x XOR rotr 18 x XOR drop_bit 3 x"

definition small_sigma1 :: "word32 \<Rightarrow> word32" where
  "small_sigma1 x = rotr 17 x XOR rotr 19 x XOR drop_bit 10 x"

text \<open>The sixty-four round constants, eight rounds to a row.\<close>

definition sha256_K :: "word32 list" where
  "sha256_K =
     [0x428a2f98, 0x71374491, 0xb5c0fbcf, 0xe9b5dba5, 0x3956c25b, 0x59f111f1, 0x923f82a4, 0xab1c5ed5] @
     [0xd807aa98, 0x12835b01, 0x243185be, 0x550c7dc3, 0x72be5d74, 0x80deb1fe, 0x9bdc06a7, 0xc19bf174] @
     [0xe49b69c1, 0xefbe4786, 0x0fc19dc6, 0x240ca1cc, 0x2de92c6f, 0x4a7484aa, 0x5cb0a9dc, 0x76f988da] @
     [0x983e5152, 0xa831c66d, 0xb00327c8, 0xbf597fc7, 0xc6e00bf3, 0xd5a79147, 0x06ca6351, 0x14292967] @
     [0x27b70a85, 0x2e1b2138, 0x4d2c6dfc, 0x53380d13, 0x650a7354, 0x766a0abb, 0x81c2c92e, 0x92722c85] @
     [0xa2bfe8a1, 0xa81a664b, 0xc24b8b70, 0xc76c51a3, 0xd192e819, 0xd6990624, 0xf40e3585, 0x106aa070] @
     [0x19a4c116, 0x1e376c08, 0x2748774c, 0x34b0bcb5, 0x391c0cb3, 0x4ed8aa4a, 0x5b9cca4f, 0x682e6ff3] @
     [0x748f82ee, 0x78a5636f, 0x84c87814, 0x8cc70208, 0x90befffa, 0xa4506ceb, 0xbef9a3f7, 0xc67178f2]"

definition sha256_H0 :: "word32 list" where
  "sha256_H0 =
     [0x6a09e667, 0xbb67ae85, 0x3c6ef372, 0xa54ff53a, 0x510e527f, 0x9b05688c, 0x1f83d9ab, 0x5be0cd19]"

text \<open>Big-endian bytes of a number, and the 32-bit words of a byte string.\<close>

fun be_bytes :: "nat \<Rightarrow> nat \<Rightarrow> byte list" where
  "be_bytes 0 v = []"
| "be_bytes (Suc n) v = be_bytes n (v div 256) @ [of_nat (v mod 256)]"

definition word_bytes :: "word32 \<Rightarrow> byte list" where
  "word_bytes w = [ucast (drop_bit 24 w), ucast (drop_bit 16 w), ucast (drop_bit 8 w), ucast w]"

fun be_words :: "byte list \<Rightarrow> word32 list" where
  "be_words (a # b # c # d # bs) =
     (push_bit 24 (ucast a) OR push_bit 16 (ucast b) OR push_bit 8 (ucast c) OR ucast d) # be_words bs"
| "be_words _ = []"

text \<open>The padding: a one bit, zeros up to 56 modulo 64 bytes, and the bit length in 64 bits.\<close>

definition sha256_pad :: "byte list \<Rightarrow> byte list" where
  "sha256_pad msg =
     msg @ [0x80] @ replicate ((119 - length msg mod 64) mod 64) 0 @ be_bytes 8 (8 * length msg)"

text \<open>The message schedule: \<open>n\<close> more words after the first sixteen.\<close>

fun schedule :: "nat \<Rightarrow> word32 list \<Rightarrow> word32 list" where
  "schedule 0 w = w"
| "schedule (Suc n) w =
     (let t = length w
      in schedule n (w @ [small_sigma1 (w ! (t - 2)) + w ! (t - 7)
                           + small_sigma0 (w ! (t - 15)) + w ! (t - 16)]))"

type_synonym sha_state =
  "word32 \<times> word32 \<times> word32 \<times> word32 \<times> word32 \<times> word32 \<times> word32 \<times> word32"

definition sha256_round :: "word32 \<times> word32 \<Rightarrow> sha_state \<Rightarrow> sha_state" where
  "sha256_round kw st =
     (case st of (a, b, c, d, e, f, g, h) \<Rightarrow>
        (let t1 = h + big_sigma1 e + Ch e f g + fst kw + snd kw;
             t2 = big_sigma0 a + Maj a b c
         in (t1 + t2, a, b, c, d + t1, e, f, g)))"

definition sha256_compress :: "word32 list \<Rightarrow> byte list \<Rightarrow> word32 list" where
  "sha256_compress hs block =
     (case hs of
        [h0, h1, h2, h3, h4, h5, h6, h7] \<Rightarrow>
          (case fold sha256_round (zip sha256_K (schedule 48 (be_words block)))
                  (h0, h1, h2, h3, h4, h5, h6, h7) of
             (a, b, c, d, e, f, g, h) \<Rightarrow>
               [h0 + a, h1 + b, h2 + c, h3 + d, h4 + e, h5 + f, h6 + g, h7 + h])
      | _ \<Rightarrow> hs)"

fun sha256_blocks :: "nat \<Rightarrow> word32 list \<Rightarrow> byte list \<Rightarrow> word32 list" where
  "sha256_blocks 0 hs bs = hs"
| "sha256_blocks (Suc n) hs bs = sha256_blocks n (sha256_compress hs (take 64 bs)) (drop 64 bs)"

definition sha256 :: "byte list \<Rightarrow> byte list" where
  "sha256 msg =
     (let padded = sha256_pad msg
      in concat (map word_bytes (sha256_blocks (length padded div 64) sha256_H0 padded)))"

text \<open>HMAC with the block size 64 of SHA-256: a longer key is hashed first.\<close>

definition hmac_sha256 :: "byte list \<Rightarrow> byte list \<Rightarrow> byte list" where
  "hmac_sha256 key msg =
     (let key0 = (if length key > 64 then sha256 key else key);
          key1 = key0 @ replicate (64 - length key0) 0
      in sha256 (map (\<lambda>b. b XOR 0x5c) key1 @ sha256 (map (\<lambda>b. b XOR 0x36) key1 @ msg)))"

definition hex_char :: "nat \<Rightarrow> char" where
  "hex_char d = (if d < 10 then char_of (48 + d) else char_of (87 + d))"

definition hexdigest :: "byte list \<Rightarrow> string" where
  "hexdigest bs = concat (map (\<lambda>b. [hex_char (unat b div 16), hex_char (unat b mod 16)]) bs)"

definition encode_utf8 :: "string \<Rightarrow> byte list" where
  "encode_utf8 s = map (\<lambda>c. of_char c) s"

definition HMAC_SECRET_KEY :: "byte list" where
  "HMAC_SECRET_KEY = encode_utf8 ''bcse318l-secret-key-for-reproducible-tokenization''"

definition generate_token :: "string \<Rightarrow> string" where
  "generate_token v = hexdigest (hmac_sha256 HMAC_SECRET_KEY (encode_utf8 v))"

text \<open>\<^verbatim>\<open>value.encode\<close> exists for strings only: another value raises \<^verbatim>\<open>AttributeError\<close>.\<close>

fun token_cell :: "cell \<Rightarrow> error + cell" where
  "token_cell (StrCell s) = Inr (StrCell (generate_token s))"
| "token_cell c = Inl AttributeError"

text \<open>
  \<^verbatim>\<open>dict(zip(df[id_col], df_tokenized[id_col]))\<close>: a later pair replaces an earlier one with
  the same key.
\<close>

definition token_vault :: "cell list \<Rightarrow> cell list \<Rightarrow> (cell \<rightharpoonup> cell)" where
  "token_vault ids tokens = fold (\<lambda>(i, t) m. m(i \<mapsto> t)) (zip ids tokens) Map.empty"

definition tokenize_ids :: "dataframe \<Rightarrow> string \<Rightarrow> error + (dataframe \<times> (cell \<rightharpoonup> cell))" where
  "tokenize_ids df id_col =
     (case column id_col of
        None \<Rightarrow> Inl KeyError
      | Some f \<Rightarrow>
          (case map_rows (\<lambda>r. case token_cell (f r) of
                                Inl e \<Rightarrow> Inl e
                              | Inr t \<Rightarrow> Inr (set_column id_col t r)) df of
             Inl e \<Rightarrow> Inl e
           | Inr df_tokenized \<Rightarrow>
               Inr (df_tokenized, token_vault (map f df) (map f df_tokenized))))"

section \<open>Sample data\<close>

text \<open>Records of the shape that \<^verbatim>\<open>generate_dataset.py\<close> writes, for the concrete runs below.\<close>

definition sample_patient :: "string \<Rightarrow> int \<Rightarrow> string \<Rightarrow> string \<Rightarrow> patient" where
  "sample_patient pid age gender zipcode =
     \<lparr>Patient_ID = StrCell pid, Name = StrCell ''N'', Age = IntCell age, Gender = StrCell gender,
      ZIP_Code = StrCell zipcode, Diagnosis = StrCell ''Flu''\<rparr>"

text \<open>The five records of the specification's scenario: ages 22, 23, 45, 46 and 47.\<close>

definition five_patients :: dataframe where
  "five_patients =
     [sample_patient ''a'' 22 ''M'' ''12345'', sample_patient ''b'' 23 ''M'' ''12345'',
      sample_patient ''c'' 45 ''M'' ''12345'', sample_patient ''d'' 46 ''M'' ''12345'',
      sample_patient ''e'' 47 ''M'' ''12345'']"

section \<open>Properties\<close>

subsection \<open>Auxiliary facts\<close>


lemma add_member_nonempty: "add_member key i gs \<noteq> []"
  by (induction key i gs rule: add_member.induct) auto

lemma add_member_positive:
  "\<forall>s\<in>set (group_sizes gs). 1 \<le> s \<Longrightarrow> \<forall>s\<in>set (group_sizes (add_member key i gs)). 1 \<le> s"
  by (induction key i gs rule: add_member.induct) (auto simp: group_sizes_def)


lemma group_rows_positive:
  "\<forall>s\<in>set (group_sizes gs). 1 \<le> s \<Longrightarrow> \<forall>s\<in>set (group_sizes (group_rows keys i gs)). 1 \<le> s"
proof (induction keys arbitrary: i gs)
  case Nil
  then show ?case by simp
next
  case (Cons key keys)
  show ?case
  proof (cases "NaN \<in> set key")
    case True
    then show ?thesis using Cons.IH[OF Cons.prems] by simp
  next
    case False
    then show ?thesis using Cons.IH[OF add_member_positive[OF Cons.prems]] by simp
  qed
qed

lemma group_rows_keeps: "gs \<noteq> [] \<Longrightarrow> group_rows keys i gs \<noteq> []"
  by (induction keys arbitrary: i gs) (auto simp: add_member_nonempty)

lemma group_rows_nonempty:
  "\<exists>key\<in>set keys. NaN \<notin> set key \<Longrightarrow> group_rows keys i gs \<noteq> []"
proof (induction keys arbitrary: i gs)
  case Nil
  then show ?case by simp
next
  case (Cons key keys)
  show ?case
  proof (cases "NaN \<in> set key")
    case True
    then show ?thesis using Cons by auto
  next
    case False
    then show ?thesis by (simp add: group_rows_keeps add_member_nonempty)
  qed
qed

lemma key_columns_known:
  "list_all (\<lambda>q. column q \<noteq> None) qis \<Longrightarrow> key_columns qis = Inr (map (\<lambda>q. the (column q)) qis)"
  by (induction qis) auto

lemma key_columns_Inr: "key_columns qis = Inr fs \<Longrightarrow> fs = map (\<lambda>q. the (column q)) qis \<and> list_all (\<lambda>q. column q \<noteq> None) qis"
  by (induction qis arbitrary: fs) (auto split: option.splits sum.splits)

lemma classes_known:
  "qis \<noteq> [] \<Longrightarrow> list_all (\<lambda>q. column q \<noteq> None) qis \<Longrightarrow>
   get_equivalence_classes df qis =
     Inr (group_rows (map (\<lambda>r. map (\<lambda>f. f r) (map (\<lambda>q. the (column q)) qis)) df) 0 [])"
  by (simp add: get_equivalence_classes_def key_columns_known)

lemma classes_error_free_of_rows:
  "get_equivalence_classes df qis = Inl e \<Longrightarrow> get_equivalence_classes df' qis = Inl e"
  by (auto simp: get_equivalence_classes_def split: if_splits sum.splits)

lemma classes_sizes_positive:
  "get_equivalence_classes df qis = Inr gs \<Longrightarrow> \<forall>s\<in>set (group_sizes gs). 1 \<le> s"
proof -
  assume h: "get_equivalence_classes df qis = Inr gs"
  then obtain fs where gs: "gs = group_rows (map (\<lambda>r. map (\<lambda>f. f r) fs) df) 0 []"
    by (auto simp: get_equivalence_classes_def split: if_splits sum.splits)
  have "\<forall>s\<in>set (group_sizes []). 1 \<le> s" by (simp add: group_sizes_def)
  then show ?thesis unfolding gs by (rule group_rows_positive)
qed



lemma min_at_least_iff:
  "min_at_least sizes k \<longleftrightarrow> sizes \<noteq> [] \<and> (\<forall>s\<in>set sizes. k \<le> int s)"
proof (cases sizes)
  case Nil
  then show ?thesis by (simp add: min_at_least_def)
next
  case (Cons s ss)
  have fin: "finite (set (s # ss))" "set (s # ss) \<noteq> {}" by auto
  have "fold min ss s = Min (set (s # ss))"
    using Min.set_eq_fold[of s ss] by simp
  moreover have "k \<le> int (Min (set (s # ss))) \<longleftrightarrow> (\<forall>x\<in>set (s # ss). k \<le> int x)"
  proof
    assume h: "k \<le> int (Min (set (s # ss)))"
    show "\<forall>x\<in>set (s # ss). k \<le> int x"
    proof
      fix x assume "x \<in> set (s # ss)"
      then have "Min (set (s # ss)) \<le> x" using fin by (intro Min_le) auto
      with h show "k \<le> int x" by linarith
    qed
  next
    assume h: "\<forall>x\<in>set (s # ss). k \<le> int x"
    have "Min (set (s # ss)) \<in> set (s # ss)" using fin by (intro Min_in) auto
    with h show "k \<le> int (Min (set (s # ss)))" by blast
  qed
  ultimately show ?thesis using Cons by (simp add: min_at_least_def)
qed

lemma min_at_least_mono: "min_at_least sizes k2 \<Longrightarrow> k1 \<le> k2 \<Longrightarrow> min_at_least sizes k1"
  unfolding min_at_least_iff by force

lemma check_k_anonymity_mono:
  "check_k_anonymity df qis k2 = Inr True \<Longrightarrow> k1 \<le> k2 \<Longrightarrow> check_k_anonymity df qis k1 = Inr True"
  by (auto simp: check_k_anonymity_def split: if_splits sum.splits dest: min_at_least_mono)

declare k_anonymity_loop.simps [simp del]

lemma loop_char:
  "k_anonymity_loop df qis k a g = Inr (out, n, how) \<Longrightarrow>
   g \<le> n \<and>
   (n = g \<longrightarrow> out = a \<and> how = Achieved \<and> check_k_anonymity a qis k = Inr True) \<and>
   (g < n \<longrightarrow> check_k_anonymity a qis k = Inr False \<and>
       generalization_attempt df qis (n - 1) = Inr out \<and>
       (\<forall>L. g \<le> L \<and> L < n - 1 \<longrightarrow>
          (\<exists>d. generalization_attempt df qis L = Inr d \<and> check_k_anonymity d qis k = Inr False)) \<and>
       (how = Achieved \<longrightarrow> check_k_anonymity out qis k = Inr True) \<and>
       (how = CapReached \<longrightarrow> 10 < n))"
proof (induction df qis k a g arbitrary: out n how rule: k_anonymity_loop.induct)
  case (1 df qis k a g)
  note eq = "1.prems"
  show ?case
  proof (cases "check_k_anonymity a qis k")
    case (Inl e)
    with eq show ?thesis by (subst (asm) k_anonymity_loop.simps) simp
  next
    case (Inr sat)
    show ?thesis
    proof (cases sat)
      case True
      with eq Inr show ?thesis by (subst (asm) k_anonymity_loop.simps) auto
    next
      case False
      note unsat = Inr False
      show ?thesis
      proof (cases "generalization_attempt df qis g")
        case (Inl e)
        with eq unsat show ?thesis by (subst (asm) k_anonymity_loop.simps) simp
      next
        case att: (Inr t)
        show ?thesis
        proof (cases "g + 1 > 10")
          case True
          with eq unsat att have "out = t" "n = g + 1" "how = CapReached"
            by (subst (asm) k_anonymity_loop.simps, simp)+
          with unsat att True show ?thesis by auto
        next
          case small: False
          with eq unsat att have rec: "k_anonymity_loop df qis k t (g + 1) = Inr (out, n, how)"
            by (subst (asm) k_anonymity_loop.simps) simp
          have sat': "\<not> sat" using False .
          note ih = "1.IH"[OF Inr sat' att small rec]
          have gn: "g < n" using ih by linarith
          have a1: "check_k_anonymity a qis k = Inr False" using unsat by simp
          have a2: "generalization_attempt df qis (n - 1) = Inr out"
          proof (cases "n = g + 1")
            case True then show ?thesis using ih att by simp
          next
            case False then show ?thesis using ih by simp
          qed
          have a3: "\<exists>d. generalization_attempt df qis L = Inr d \<and> check_k_anonymity d qis k = Inr False"
            if "g \<le> L" "L < n - 1" for L
          proof (cases "L = g")
            case True
            have "g + 1 < n" using that True by simp
            then have "check_k_anonymity t qis k = Inr False" using ih by simp
            with att True show ?thesis by simp
          next
            case False
            then have "g + 1 \<le> L" using that by simp
            moreover have "g + 1 < n" using that False by simp
            ultimately show ?thesis using ih that by blast
          qed
          have a4: "how = Achieved \<longrightarrow> check_k_anonymity out qis k = Inr True"
            using ih by (cases "n = g + 1") auto
          have a5: "how = CapReached \<longrightarrow> 10 < n"
            using ih by (cases "n = g + 1") auto
          show ?thesis using gn a1 a2 a3 a4 a5 by auto
        qed
      qed
    qed
  qed
qed

lemma loop_bound:
  "k_anonymity_loop df qis k a g = Inr (out, n, how) \<Longrightarrow> g \<le> 10 \<Longrightarrow> n \<le> 11"
proof (induction df qis k a g arbitrary: out n how rule: k_anonymity_loop.induct)
  case (1 df qis k a g)
  from "1.prems" show ?case
    apply (subst (asm) k_anonymity_loop.simps)
    apply (auto split: sum.splits if_splits dest: "1.IH")
    done
qed

lemma map_rows_then_map:
  "(case map_rows f df of Inl e \<Rightarrow> Inl e | Inr d \<Rightarrow> Inr (map g d)) =
   map_rows (\<lambda>r. case f r of Inl e \<Rightarrow> Inl e | Inr r' \<Rightarrow> Inr (g r')) df"
  by (induction df) (auto split: sum.splits)

lemma map_rows_total: "map_rows (\<lambda>r. Inr (g r)) df = Inr (map g df)"
  by (induction df) auto

lemma map_rows_cong: "(\<And>r. r \<in> set df \<Longrightarrow> f r = g r) \<Longrightarrow> map_rows f df = map_rows g df"
  by (induction df) (auto split: sum.splits)

lemma py_get_in_range: "0 \<le> i \<Longrightarrow> i < int (length xs) \<Longrightarrow> py_get xs i = Inr (xs ! nat i)"
  by (simp add: py_get_def)

lemma age_table_get:
  "0 \<le> L \<Longrightarrow> py_get age_generalizations (min (L div 2) (int (length age_generalizations) - 1))
     = Inr (age_generalizations ! nat (min (L div 2) 3))"
  by (subst py_get_in_range) (auto simp: age_generalizations_def)

lemma zip_table_get:
  "0 \<le> i \<Longrightarrow> py_get zip_generalizations (min i (int (length zip_generalizations) - 1))
     = Inr (zip_generalizations ! nat (min i 3))"
  by (subst py_get_in_range) (auto simp: zip_generalizations_def)

lemma spec_generalize_record_fun:
  "spec_generalize_record qis ageRung zipRungIdx =
     (\<lambda>r. case (if ''Age'' \<in> set qis
            then cut_cell (fst (age_generalizations ! nat ageRung))
                          (snd (age_generalizations ! nat ageRung)) (Age r)
            else Inr (Age r)) of
        Inl e \<Rightarrow> Inl e
      | Inr a \<Rightarrow>
          Inr (r\<lparr>Age := a,
                 ZIP_Code :=
                   (if ''ZIP_Code'' \<in> set qis \<and> 0 \<le> zipRungIdx
                    then StrCell (pad_right 5 (CHR ''*'')
                           (take (zip_generalizations ! nat (min zipRungIdx 3)) (astype_str (ZIP_Code r))))
                    else ZIP_Code r)\<rparr>))"
  by (rule ext) (simp add: spec_generalize_record_def)

lemma sum_case_id: "(case x of Inl e \<Rightarrow> Inl e | Inr d \<Rightarrow> Inr d) = x"
  by (cases x) auto

lemma attempt_eq_spec:
  assumes "0 \<le> L"
  shows "generalization_attempt df qis L = spec_transition df qis L"
proof -
  obtain bins labels where tab: "age_generalizations ! nat (min (L div 2) 3) = (bins, labels)"
    by (cases "age_generalizations ! nat (min (L div 2) 3)") auto
  consider (zip) "''ZIP_Code'' \<in> set qis" "0 \<le> (L - 1) div 2"
    | (first) "''ZIP_Code'' \<in> set qis" "\<not> 0 \<le> (L - 1) div 2"
    | (nozip) "''ZIP_Code'' \<notin> set qis" by blast
  then show ?thesis
  proof cases
    case zip
    show ?thesis
    proof (cases "''Age'' \<in> set qis")
      case True
      then show ?thesis using zip assms tab
        by (simp add: generalization_attempt_def spec_transition_def spec_generalize_record_fun
            spec_age_rung_def spec_zip_rung_idx_def age_table_get zip_table_get generalize_age_def
            generalize_zip_def map_rows_then_map sum.case_distrib[of "case_sum Inl _"] cong: sum.case_cong)
    next
      case False
      then show ?thesis using zip assms
        by (simp add: generalization_attempt_def spec_transition_def spec_generalize_record_fun
            spec_age_rung_def spec_zip_rung_idx_def zip_table_get generalize_zip_def map_rows_total)
    qed
  next
    case first
    show ?thesis
    proof (cases "''Age'' \<in> set qis")
      case True
      have "L = 0" using first assms by linarith
      then show ?thesis using True
        by (simp add: generalization_attempt_def spec_transition_def spec_generalize_record_fun
            spec_age_rung_def spec_zip_rung_idx_def py_get_def age_generalizations_def
            generalize_age_def Let_def sum_case_id cong: sum.case_cong)
    next
      case False
      then show ?thesis using first assms
        by (simp add: generalization_attempt_def spec_transition_def spec_generalize_record_fun
            spec_age_rung_def spec_zip_rung_idx_def map_rows_total Let_def)
    qed
  next
    case nozip
    show ?thesis
    proof (cases "''Age'' \<in> set qis")
      case True
      then show ?thesis using nozip assms tab
        by (simp add: generalization_attempt_def spec_transition_def spec_generalize_record_fun
            spec_age_rung_def spec_zip_rung_idx_def age_table_get generalize_age_def Let_def sum_case_id cong: sum.case_cong)
    next
      case False
      then show ?thesis using nozip assms
        by (simp add: generalization_attempt_def spec_transition_def spec_generalize_record_fun
            spec_age_rung_def spec_zip_rung_idx_def map_rows_total Let_def)
    qed
  qed
qed


lemma map_rows_all_Inr:
  "\<forall>r\<in>set df. \<exists>r'. f r = Inr r' \<Longrightarrow> \<exists>d. map_rows f df = Inr d"
  by (induction df) (auto split: sum.splits)

lemma check_total:
  "qis \<noteq> [] \<Longrightarrow> list_all (\<lambda>q. column q \<noteq> None) qis \<Longrightarrow> \<exists>b. check_k_anonymity a qis k = Inr b"
  by (auto simp: check_k_anonymity_def classes_known)

lemma cut_cell_total: "\<forall>s. c \<noteq> StrCell s \<Longrightarrow> \<exists>c'. cut_cell bins labels c = Inr c'"
  by (cases c) auto

lemma attempt_total:
  assumes "0 \<le> g" "''Age'' \<in> set qis \<longrightarrow> (\<forall>r\<in>set df. \<forall>s. Age r \<noteq> StrCell s)"
  shows "\<exists>d. generalization_attempt df qis g = Inr d"
proof -
  have "\<exists>r'. spec_generalize_record qis (spec_age_rung g) (spec_zip_rung_idx g) r = Inr r'"
    if "r \<in> set df" for r
  proof (cases "''Age'' \<in> set qis")
    case True
    then have "\<forall>s. Age r \<noteq> StrCell s" using assms(2) that by blast
    then obtain c' where "cut_cell (fst (age_generalizations ! nat (spec_age_rung g)))
        (snd (age_generalizations ! nat (spec_age_rung g))) (Age r) = Inr c'"
      using cut_cell_total by blast
    then show ?thesis
      using True by (simp add: spec_generalize_record_def)
  next
    case False
    then show ?thesis by (simp add: spec_generalize_record_def)
  qed
  then have "\<exists>d. spec_transition df qis g = Inr d"
    unfolding spec_transition_def by (intro map_rows_all_Inr) blast
  then show ?thesis using attempt_eq_spec[OF assms(1)] by simp
qed

lemma loop_total:
  "qis \<noteq> [] \<Longrightarrow> list_all (\<lambda>q. column q \<noteq> None) qis \<Longrightarrow>
   ''Age'' \<in> set qis \<longrightarrow> (\<forall>r\<in>set df. \<forall>s. Age r \<noteq> StrCell s) \<Longrightarrow>
   0 \<le> g \<Longrightarrow> \<exists>res. k_anonymity_loop df qis k a g = Inr res"
proof (induction df qis k a g rule: k_anonymity_loop.induct)
  case (1 df qis k a g)
  obtain b where b: "check_k_anonymity a qis k = Inr b"
    using check_total[OF "1.prems"(1,2)] by blast
  obtain t where t: "generalization_attempt df qis g = Inr t"
    using attempt_total[OF "1.prems"(4,3)] by blast
  show ?case
  proof (cases "b \<or> g + 1 > 10")
    case True
    then show ?thesis using b t by (subst k_anonymity_loop.simps) auto
  next
    case False
    then have nb: "\<not> b" and small: "\<not> g + 1 > 10" by auto
    have "0 \<le> g + 1" using "1.prems"(4) by simp
    from "1.IH"[OF b nb t small "1.prems"(1,2,3) this]
    show ?thesis using b t nb small by (subst k_anonymity_loop.simps) auto
  qed
qed

lemma loop_levels_mono:
  assumes "k1 \<le> k2"
    and r1: "k_anonymity_loop df qis k1 df 0 = Inr (out1, n1, how1)"
    and r2: "k_anonymity_loop df qis k2 df 0 = Inr (out2, n2, how2)"
  shows "n1 \<le> n2"
proof (rule ccontr)
  assume "\<not> n1 \<le> n2"
  then have lt: "n2 < n1" by simp
  note c1 = loop_char[OF r1] and c2 = loop_char[OF r2]
  have n1: "n1 \<le> 11" using loop_bound[OF r1] by simp
  have "how2 \<noteq> CapReached" using c2 lt n1 by (cases "0 < n2") auto
  then have ach: "how2 = Achieved" by (cases how2) auto
  show False
  proof (cases "n2 = 0")
    case True
    then have "check_k_anonymity df qis k2 = Inr True" using c2 by simp
    then have "check_k_anonymity df qis k1 = Inr True" using assms(1) by (rule check_k_anonymity_mono)
    moreover have "check_k_anonymity df qis k1 = Inr False" using c1 lt True c2 by simp
    ultimately show False by simp
  next
    case False
    then have pos: "0 < n2" using c2 by linarith
    then have a: "generalization_attempt df qis (n2 - 1) = Inr out2"
      and s: "check_k_anonymity out2 qis k2 = Inr True" using c2 ach by auto
    have "check_k_anonymity out2 qis k1 = Inr True" using s assms(1) by (rule check_k_anonymity_mono)
    moreover have "\<exists>d. generalization_attempt df qis (n2 - 1) = Inr d \<and> check_k_anonymity d qis k1 = Inr False"
      using c1 lt pos by auto
    ultimately show False using a by auto
  qed
qed

subsection \<open>The schedule of the enforcement loop\<close>



subsection \<open>The safety cap\<close>

text \<open>
  Claim C3, as stated, fails. A single record grouped by gender never reaches \<open>k = 2\<close>: the
  loop generates eleven frames (levels 0 to 10) before it gives up, and it returns the
  frame alone. The same frame comes back from the run with \<open>k = 1\<close>, which succeeds at once:
  nothing in the returned value tells the two ways out apart.
\<close>

theorem enforcement_cap_counterexample:
  "k_anonymity_loop [sample_patient ''a'' 30 ''M'' ''12345''] [''Gender''] 2
       [sample_patient ''a'' 30 ''M'' ''12345''] 0 =
     Inr ([sample_patient ''a'' 30 ''M'' ''12345''], 11, CapReached) \<and>
   apply_k_anonymity [sample_patient ''a'' 30 ''M'' ''12345''] [''Gender''] 2 =
     Inr [sample_patient ''a'' 30 ''M'' ''12345''] \<and>
   k_anonymity_loop [sample_patient ''a'' 30 ''M'' ''12345''] [''Gender''] 1
       [sample_patient ''a'' 30 ''M'' ''12345''] 0 =
     Inr ([sample_patient ''a'' 30 ''M'' ''12345''], 0, Achieved) \<and>
   apply_k_anonymity [sample_patient ''a'' 30 ''M'' ''12345''] [''Gender''] 1 =
     Inr [sample_patient ''a'' 30 ''M'' ''12345'']"
  by code_simp

text \<open>
  Claim C3, amended. For a non-empty list of known quasi-identifier columns (and an age
  column without text when the age is among them) the loop always returns: after at most
  eleven attempts, without an error. A run that ends as achieved returns a frame that passes
  the test. A run that ends at the cap has made eleven attempts, the test failed on the
  given frame and on the frames of levels 0 to 9, and the frame of level 10 is returned
  as it is.
\<close>

theorem enforcement_cap:
  assumes "qis \<noteq> []" "list_all (\<lambda>q. column q \<noteq> None) qis"
    "''Age'' \<in> set qis \<longrightarrow> (\<forall>r\<in>set df. \<forall>s. Age r \<noteq> StrCell s)"
  shows "\<exists>out n how.
           k_anonymity_loop df qis k df 0 = Inr (out, n, how) \<and>
           apply_k_anonymity df qis k = Inr out \<and> 0 \<le> n \<and> n \<le> 11 \<and>
           (how = Achieved \<longrightarrow> check_k_anonymity out qis k = Inr True) \<and>
           (how = CapReached \<longrightarrow>
              n = 11 \<and> generalization_attempt df qis 10 = Inr out \<and>
              check_k_anonymity df qis k = Inr False \<and>
              (\<forall>L. 0 \<le> L \<and> L < 10 \<longrightarrow>
                 (\<exists>d. generalization_attempt df qis L = Inr d \<and>
                      check_k_anonymity d qis k = Inr False)))"
proof -
  obtain out n how where r: "k_anonymity_loop df qis k df 0 = Inr (out, n, how)"
    using loop_total[OF assms, of 0 k df] by (metis order_refl prod_cases3)
  note c = loop_char[OF r]
  have b: "n \<le> 11" using loop_bound[OF r] by simp
  have a: "apply_k_anonymity df qis k = Inr out" by (simp add: apply_k_anonymity_def r)
  have ach: "how = Achieved \<longrightarrow> check_k_anonymity out qis k = Inr True"
    using c by (cases "n = 0") auto
  have cap: "how = CapReached \<longrightarrow>
              n = 11 \<and> generalization_attempt df qis 10 = Inr out \<and>
              check_k_anonymity df qis k = Inr False \<and>
              (\<forall>L. 0 \<le> L \<and> L < 10 \<longrightarrow>
                 (\<exists>d. generalization_attempt df qis L = Inr d \<and>
                      check_k_anonymity d qis k = Inr False))"
  proof
    assume h: "how = CapReached"
    then have "0 < n" using c by (cases "n = 0") auto
    then have "10 < n" using c h by simp
    then have n: "n = 11" using b by simp
    then show "n = 11 \<and> generalization_attempt df qis 10 = Inr out \<and>
              check_k_anonymity df qis k = Inr False \<and>
              (\<forall>L. 0 \<le> L \<and> L < 10 \<longrightarrow>
                 (\<exists>d. generalization_attempt df qis L = Inr d \<and>
                      check_k_anonymity d qis k = Inr False))"
      using c by simp
  qed
  show ?thesis using r a b c ach cap by blast
qed

theorem enforcement_cap_witness:
  "\<exists>out n how.
     k_anonymity_loop [sample_patient ''a'' 30 ''M'' ''12345''] [''Age''] 2
        [sample_patient ''a'' 30 ''M'' ''12345''] 0 = Inr (out, n, how) \<and>
     apply_k_anonymity [sample_patient ''a'' 30 ''M'' ''12345''] [''Age''] 2 = Inr out \<and>
     n = 11 \<and> how = CapReached \<and> Age (hd out) = StrCell ''0-99''"
proof -
  have h: "k_anonymity_loop [sample_patient ''a'' 30 ''M'' ''12345''] [''Age''] 2
        [sample_patient ''a'' 30 ''M'' ''12345''] 0 =
      Inr ([(sample_patient ''a'' 30 ''M'' ''12345'')\<lparr>Age := StrCell ''0-99''\<rparr>], 11, CapReached)"
    by code_simp
  have "[''Age''] \<noteq> []" "list_all (\<lambda>q. column q \<noteq> None) [''Age'']"
    "''Age'' \<in> set [''Age''] \<longrightarrow>
       (\<forall>r\<in>set [sample_patient ''a'' 30 ''M'' ''12345'']. \<forall>s. Age r \<noteq> StrCell s)"
    by (simp_all add: column_def sample_patient_def)
  from enforcement_cap[OF this, of 2] show ?thesis using h by auto
qed

subsection \<open>Monotonic severity\<close>

text \<open>
  Claim C9. For a fixed frame and a fixed non-empty list of known quasi-identifier columns
  (the age column without text when the age is among them), the loop returns for both
  targets \<open>k1 \<le> k2\<close>, and the final level reached for \<open>k2\<close> is at least the one reached for
  \<open>k1\<close>.
\<close>

theorem monotonic_severity:
  assumes "k1 \<le> k2" "qis \<noteq> []" "list_all (\<lambda>q. column q \<noteq> None) qis"
    "''Age'' \<in> set qis \<longrightarrow> (\<forall>r\<in>set df. \<forall>s. Age r \<noteq> StrCell s)"
  shows "\<exists>out1 n1 how1 out2 n2 how2.
           k_anonymity_loop df qis k1 df 0 = Inr (out1, n1, how1) \<and>
           k_anonymity_loop df qis k2 df 0 = Inr (out2, n2, how2) \<and> n1 \<le> n2"
proof -
  obtain out1 n1 how1 where r1: "k_anonymity_loop df qis k1 df 0 = Inr (out1, n1, how1)"
    using loop_total[OF assms(2-4), of 0 k1 df] by (metis order_refl prod_cases3)
  obtain out2 n2 how2 where r2: "k_anonymity_loop df qis k2 df 0 = Inr (out2, n2, how2)"
    using loop_total[OF assms(2-4), of 0 k2 df] by (metis order_refl prod_cases3)
  have "n1 \<le> n2" using assms(1) r1 r2 by (rule loop_levels_mono)
  then show ?thesis using r1 r2 by blast
qed

theorem monotonic_severity_witness:
  "(\<exists>out1 n1 how1 out2 n2 how2.
      k_anonymity_loop five_patients [''Age''] 2 five_patients 0 = Inr (out1, n1, how1) \<and>
      k_anonymity_loop five_patients [''Age''] 3 five_patients 0 = Inr (out2, n2, how2) \<and> n1 \<le> n2) \<and>
   map_sum id (\<lambda>r. fst (snd r)) (k_anonymity_loop five_patients [''Age''] 2 five_patients 0) = Inr 1 \<and>
   map_sum id (\<lambda>r. fst (snd r)) (k_anonymity_loop five_patients [''Age''] 3 five_patients 0) = Inr 5"
proof -
  have h: "map_sum id (\<lambda>r. fst (snd r)) (k_anonymity_loop five_patients [''Age''] 2 five_patients 0) = Inr 1 \<and>
     map_sum id (\<lambda>r. fst (snd r)) (k_anonymity_loop five_patients [''Age''] 3 five_patients 0) = Inr 5"
    by code_simp
  have "(2::int) \<le> 3" "[''Age''] \<noteq> []" "list_all (\<lambda>q. column q \<noteq> None) [''Age'']"
    "''Age'' \<in> set [''Age''] \<longrightarrow> (\<forall>r\<in>set five_patients. \<forall>s. Age r \<noteq> StrCell s)"
    by (simp_all add: column_def five_patients_def sample_patient_def)
  from monotonic_severity[OF this] show ?thesis using h by simp
qed

subsection \<open>Targets of at most one\<close>

text \<open>
  Claim C10. For a non-empty list of known quasi-identifier columns, a frame without a
  missing value in these columns and a target \<open>k \<le> 1\<close>, the test holds on the frame as it
  is given, the loop makes no attempt (level 0, achieved) and \<^verbatim>\<open>apply_k_anonymity\<close> returns the
  frame unchanged.
\<close>

theorem k_at_most_one_unchanged:
  assumes "qis \<noteq> []" "list_all (\<lambda>q. column q \<noteq> None) qis" "k \<le> 1"
    "\<forall>r\<in>set df. \<forall>q\<in>set qis. the (column q) r \<noteq> NaN"
  shows "check_k_anonymity df qis k = Inr True \<and>
         k_anonymity_loop df qis k df 0 = Inr (df, 0, Achieved) \<and>
         apply_k_anonymity df qis k = Inr df"
proof -
  have chk: "check_k_anonymity df qis k = Inr True"
  proof (cases "df = []")
    case True
    then show ?thesis by (simp add: check_k_anonymity_def)
  next
    case False
    let ?fs = "map (\<lambda>q. the (column q)) qis"
    let ?keys = "map (\<lambda>r. map (\<lambda>f. f r) ?fs) df"
    let ?gs = "group_rows ?keys 0 []"
    have cls: "get_equivalence_classes df qis = Inr ?gs"
      using assms(1,2) by (rule classes_known)
    have "\<forall>key\<in>set ?keys. NaN \<notin> set key"
    proof
      fix key assume "key \<in> set ?keys"
      then obtain r where r: "r \<in> set df" "key = map (\<lambda>f. f r) ?fs" by auto
      show "NaN \<notin> set key"
      proof
        assume "NaN \<in> set key"
        then obtain q where "q \<in> set qis" "the (column q) r = NaN" using r(2) by force
        then show False using assms(4) r(1) by blast
      qed
    qed
    moreover have "?keys \<noteq> []" using False by simp
    ultimately have "\<exists>key\<in>set ?keys. NaN \<notin> set key" by (cases ?keys) auto
    then have ne: "?gs \<noteq> []" by (rule group_rows_nonempty)
    have pos: "\<forall>s\<in>set (group_sizes ?gs). 1 \<le> s" using cls by (rule classes_sizes_positive)
    have "min_at_least (group_sizes ?gs) k"
      unfolding min_at_least_iff using ne pos assms(3) by (auto simp: group_sizes_def)
    then show ?thesis using False cls by (simp add: check_k_anonymity_def)
  qed
  have loop: "k_anonymity_loop df qis k df 0 = Inr (df, 0, Achieved)"
    using chk by (subst k_anonymity_loop.simps) simp
  show ?thesis using chk loop by (simp add: apply_k_anonymity_def)
qed

theorem k_at_most_one_unchanged_witness:
  "check_k_anonymity five_patients [''Age'', ''ZIP_Code''] 1 = Inr True \<and>
   k_anonymity_loop five_patients [''Age'', ''ZIP_Code''] 1 five_patients 0 = Inr (five_patients, 0, Achieved) \<and>
   apply_k_anonymity five_patients [''Age'', ''ZIP_Code''] 1 = Inr five_patients"
proof -
  have "[''Age'', ''ZIP_Code''] \<noteq> []" "list_all (\<lambda>q. column q \<noteq> None) [''Age'', ''ZIP_Code'']"
    "(1::int) \<le> 1"
    "\<forall>r\<in>set five_patients. \<forall>q\<in>set [''Age'', ''ZIP_Code'']. the (column q) r \<noteq> NaN"
    by (simp_all add: column_def five_patients_def sample_patient_def)
  from k_at_most_one_unchanged[OF this] show ?thesis .
qed

subsection \<open>Linkage risk\<close>




subsection \<open>The l-diversity report\<close>

text \<open>The loop reports, in the order of the classes, those whose diversity is below \<open>l_val\<close>.\<close>

lemma failing_groups_loop_eq:
  "column sensitive_col = Some f \<Longrightarrow>
   failing_groups_loop df sensitive_col l_val gs acc =
     Inr (acc @ map (\<lambda>(name, members). (name, diversity_of f df members))
                  (filter (\<lambda>(name, members). int (diversity_of f df members) < l_val) gs))"
  by (induction gs arbitrary: acc) (auto simp: Let_def)

lemma diversity_of_card:
  "diversity_of f df members = card {v \<in> (\<lambda>i. f (df ! i)) ` set members. v \<noteq> NaN}"
proof -
  have "set (filter (\<lambda>v. v \<noteq> NaN) (map (\<lambda>i. f (df ! i)) members)) =
        {v \<in> (\<lambda>i. f (df ! i)) ` set members. v \<noteq> NaN}" by auto
  then show ?thesis by (simp add: diversity_of_def length_remdups_card_conv)
qed

text \<open>
  Claim C7. For a non-empty list of known quasi-identifier columns and a known sensitive
  column, \<^verbatim>\<open>check_l_diversity\<close> returns a result whatever the outcome of the check (a failed
  check is data, not an error); the flag is true if and only if the list of failing groups
  is empty; the list holds exactly the classes whose diversity is below \<open>l_val\<close>; and the
  diversity reported for a class is the number of distinct values of the sensitive column
  in the class, the missing value left out. The function is a pure query of the frame: the
  model has no way to change it.
\<close>

theorem l_diversity_report:
  assumes "qis \<noteq> []" "list_all (\<lambda>q. column q \<noteq> None) qis" "column sensitive_col = Some f"
  shows "\<exists>classes failing.
           get_equivalence_classes df qis = Inr classes \<and>
           check_l_diversity df sensitive_col qis l_val = Inr (failing = [], failing) \<and>
           failing = map (\<lambda>(name, members). (name, diversity_of f df members))
                       (filter (\<lambda>(name, members). int (diversity_of f df members) < l_val) classes) \<and>
           (\<forall>(name, diversity)\<in>set failing. int diversity < l_val \<and>
              (\<exists>members. (name, members) \<in> set classes \<and>
                 diversity = card {v \<in> (\<lambda>i. f (df ! i)) ` set members. v \<noteq> NaN}))"
proof -
  obtain classes where cls: "get_equivalence_classes df qis = Inr classes"
    using classes_known[OF assms(1,2)] by blast
  define failing where "failing = map (\<lambda>(name, members). (name, diversity_of f df members))
                       (filter (\<lambda>(name, members). int (diversity_of f df members) < l_val) classes)"
  have loop: "failing_groups_loop df sensitive_col l_val classes [] = Inr failing"
    using failing_groups_loop_eq[OF assms(3), of df l_val classes "[]"] by (simp add: failing_def)
  have res: "check_l_diversity df sensitive_col qis l_val = Inr (failing = [], failing)"
    by (simp add: check_l_diversity_def cls loop)
  have each: "\<forall>(name, diversity)\<in>set failing. int diversity < l_val \<and>
              (\<exists>members. (name, members) \<in> set classes \<and>
                 diversity = card {v \<in> (\<lambda>i. f (df ! i)) ` set members. v \<noteq> NaN})"
    unfolding failing_def by (auto simp: diversity_of_card)
  show ?thesis using cls res each failing_def by blast
qed

theorem l_diversity_report_witness:
  "(\<exists>classes failing.
      get_equivalence_classes
        [sample_patient ''a'' 30 ''M'' ''12345'',
         (sample_patient ''b'' 30 ''M'' ''12345'')\<lparr>Diagnosis := StrCell ''Asthma''\<rparr>,
         (sample_patient ''c'' 40 ''M'' ''12345'')\<lparr>Diagnosis := NaN\<rparr>] [''Age''] = Inr classes \<and>
      check_l_diversity
        [sample_patient ''a'' 30 ''M'' ''12345'',
         (sample_patient ''b'' 30 ''M'' ''12345'')\<lparr>Diagnosis := StrCell ''Asthma''\<rparr>,
         (sample_patient ''c'' 40 ''M'' ''12345'')\<lparr>Diagnosis := NaN\<rparr>] ''Diagnosis'' [''Age''] 2 =
        Inr (failing = [], failing)) \<and>
   check_l_diversity
     [sample_patient ''a'' 30 ''M'' ''12345'',
      (sample_patient ''b'' 30 ''M'' ''12345'')\<lparr>Diagnosis := StrCell ''Asthma''\<rparr>,
      (sample_patient ''c'' 40 ''M'' ''12345'')\<lparr>Diagnosis := NaN\<rparr>] ''Diagnosis'' [''Age''] 2 =
     Inr (False, [([IntCell 40], 0)])"
proof -
  have h: "check_l_diversity
     [sample_patient ''a'' 30 ''M'' ''12345'',
      (sample_patient ''b'' 30 ''M'' ''12345'')\<lparr>Diagnosis := StrCell ''Asthma''\<rparr>,
      (sample_patient ''c'' 40 ''M'' ''12345'')\<lparr>Diagnosis := NaN\<rparr>] ''Diagnosis'' [''Age''] 2 =
     Inr (False, [([IntCell 40], 0)])"
    by code_simp
  have "[''Age''] \<noteq> []" "list_all (\<lambda>q. column q \<noteq> None) [''Age'']"
    "column ''Diagnosis'' = Some Diagnosis"
    by (simp_all add: column_def)
  from l_diversity_report[OF this] show ?thesis using h by blast
qed

subsection \<open>Records outside every class\<close>

text \<open>
  Claim C6 does not hold of the code. An age of 150 lies outside every bin, so \<^verbatim>\<open>pd.cut\<close>
  turns it into a missing value; \<^verbatim>\<open>groupby\<close> then leaves the record out of every class, and
  the test for \<open>k = 2\<close> succeeds although the record stands alone. A postal code that is
  missing in the input has the same effect before any generalization.
\<close>

theorem classes_drop_missing_keys:
  "apply_k_anonymity
     [sample_patient ''a'' 150 ''M'' ''12345'', sample_patient ''b'' 20 ''M'' ''12345'',
      sample_patient ''c'' 21 ''M'' ''12345''] [''Age''] 2 =
     Inr [(sample_patient ''a'' 150 ''M'' ''12345'')\<lparr>Age := NaN\<rparr>,
          (sample_patient ''b'' 20 ''M'' ''12345'')\<lparr>Age := StrCell ''20-29''\<rparr>,
          (sample_patient ''c'' 21 ''M'' ''12345'')\<lparr>Age := StrCell ''20-29''\<rparr>] \<and>
   get_equivalence_classes
     [(sample_patient ''a'' 150 ''M'' ''12345'')\<lparr>Age := NaN\<rparr>,
      (sample_patient ''b'' 20 ''M'' ''12345'')\<lparr>Age := StrCell ''20-29''\<rparr>,
      (sample_patient ''c'' 21 ''M'' ''12345'')\<lparr>Age := StrCell ''20-29''\<rparr>] [''Age''] =
     Inr [([StrCell ''20-29''], [1, 2])] \<and>
   check_k_anonymity
     [(sample_patient ''a'' 150 ''M'' ''12345'')\<lparr>Age := NaN\<rparr>,
      (sample_patient ''b'' 20 ''M'' ''12345'')\<lparr>Age := StrCell ''20-29''\<rparr>,
      (sample_patient ''c'' 21 ''M'' ''12345'')\<lparr>Age := StrCell ''20-29''\<rparr>] [''Age''] 2 = Inr True \<and>
   get_equivalence_classes
     [(sample_patient ''a'' 30 ''M'' ''12345'')\<lparr>ZIP_Code := NaN\<rparr>,
      sample_patient ''b'' 30 ''M'' ''12345'', sample_patient ''c'' 30 ''M'' ''12345'']
     [''Age'', ''ZIP_Code''] =
     Inr [([IntCell 30, StrCell ''12345''], [1, 2])]"
  by code_simp

subsection \<open>The certainty penalty\<close>








lemma ncp_loop_sum:
  "ncp_loop original_df anonymized_df qis acc0 = Inr v \<Longrightarrow>
   \<exists>cs. map (qi_ncp original_df anonymized_df) qis = map Inr cs \<and> v = acc0 + sum_list cs"
proof (induction qis arbitrary: acc0)
  case Nil
  then show ?case by simp
next
  case (Cons qi qis)
  then obtain c where c: "qi_ncp original_df anonymized_df qi = Inr c"
    and rest: "ncp_loop original_df anonymized_df qis (acc0 + c) = Inr v"
    by (auto split: sum.splits)
  from Cons.IH[OF rest] obtain cs where
    "map (qi_ncp original_df anonymized_df) qis = map Inr cs" "v = acc0 + c + sum_list cs" by blast
  then have "map (qi_ncp original_df anonymized_df) (qi # qis) = map Inr (c # cs) \<and>
             v = acc0 + sum_list (c # cs)" using c by simp
  then show ?case by blast
qed










declare digits_of.simps [simp del]














subsection \<open>Tokens\<close>

lemma column_set_column: "column c = Some f \<Longrightarrow> f (set_column c v r) = v"
  by (auto simp: column_def set_column_def split: if_splits)

lemma tokenized_rows:
  "map_rows (\<lambda>r. case token_cell (f r) of Inl e \<Rightarrow> Inl e | Inr t \<Rightarrow> Inr (set_column c t r)) df = Inr d \<Longrightarrow>
   d = map (\<lambda>r. set_column c (StrCell (generate_token (astype_str (f r)))) r) df \<and>
   (\<forall>r\<in>set df. \<exists>s. f r = StrCell s)"
proof (induction df arbitrary: d)
  case Nil
  then show ?case by simp
next
  case (Cons r df)
  from Cons.prems obtain t d' where t: "token_cell (f r) = Inr t"
    and d': "map_rows (\<lambda>r. case token_cell (f r) of Inl e \<Rightarrow> Inl e | Inr t \<Rightarrow> Inr (set_column c t r)) df = Inr d'"
    and d: "d = set_column c t r # d'"
    by (auto split: sum.splits)
  from t obtain s where s: "f r = StrCell s" "t = StrCell (generate_token s)"
    by (cases "f r") auto
  show ?case using Cons.IH[OF d'] d s by simp
qed

lemma tokenized_rows_total:
  "\<forall>r\<in>set df. \<exists>s. f r = StrCell s \<Longrightarrow>
   \<exists>d. map_rows (\<lambda>r. case token_cell (f r) of Inl e \<Rightarrow> Inl e | Inr t \<Rightarrow> Inr (set_column c t r)) df = Inr d"
  by (rule map_rows_all_Inr) auto

lemma vault_fold:
  "fold (\<lambda>(i, t) m. m(i \<mapsto> t)) (zip ids (map g ids)) m k =
     (if k \<in> set ids then Some (g k) else m k)"
  by (induction ids arbitrary: m) auto

lemma token_vault_lookup:
  "token_vault ids (map g ids) k = (if k \<in> set ids then Some (g k) else None)"
  by (simp add: token_vault_def vault_fold)

text \<open>
  Claim C4, amended. \<^verbatim>\<open>tokenize_ids\<close> takes the frame and the name of the identifier column
  and no key: for a known column that holds strings it returns a frame of the same length
  in which every identifier is replaced by the hexadecimal HMAC-SHA256 of its bytes under
  the constant key \<^verbatim>\<open>bcse318l-secret-key-for-reproducible-tokenization\<close> of the module, and a
  vault that maps every identifier to that token.
\<close>

theorem tokens_under_fixed_key:
  assumes "column id_col = Some f" "\<forall>r\<in>set df. \<exists>s. f r = StrCell s"
  shows "\<exists>df_tokenized vault.
           tokenize_ids df id_col = Inr (df_tokenized, vault) \<and>
           length df_tokenized = length df \<and>
           (\<forall>i<length df. \<exists>s.
              f (df ! i) = StrCell s \<and>
              f (df_tokenized ! i) =
                StrCell (hexdigest (hmac_sha256
                  (encode_utf8 ''bcse318l-secret-key-for-reproducible-tokenization'') (encode_utf8 s))) \<and>
              vault (StrCell s) = Some (f (df_tokenized ! i)))"
proof -
  let ?g = "\<lambda>c. StrCell (generate_token (astype_str c))"
  obtain d where d: "map_rows (\<lambda>r. case token_cell (f r) of Inl e \<Rightarrow> Inl e
                                     | Inr t \<Rightarrow> Inr (set_column id_col t r)) df = Inr d"
    using tokenized_rows_total[OF assms(2)] by blast
  have deq: "d = map (\<lambda>r. set_column id_col (?g (f r)) r) df"
    using tokenized_rows[OF d] by simp
  have len: "length d = length df" using deq by simp
  have col: "map f d = map ?g (map f df)"
    unfolding deq using column_set_column[OF assms(1)] by simp
  have res: "tokenize_ids df id_col = Inr (d, token_vault (map f df) (map ?g (map f df)))"
    using assms(1) d col by (simp add: tokenize_ids_def)
  have each: "\<exists>s. f (df ! i) = StrCell s \<and>
              f (d ! i) =
                StrCell (hexdigest (hmac_sha256
                  (encode_utf8 ''bcse318l-secret-key-for-reproducible-tokenization'') (encode_utf8 s))) \<and>
              token_vault (map f df) (map ?g (map f df)) (StrCell s) = Some (f (d ! i))"
    if i: "i < length df" for i
  proof -
    obtain s where s: "f (df ! i) = StrCell s" using assms(2) i by (meson nth_mem)
    have "f (d ! i) = ?g (f (df ! i))"
      using i deq column_set_column[OF assms(1)] by simp
    then have tok: "f (d ! i) = StrCell (generate_token s)" using s by simp
    have "StrCell s \<in> set (map f df)" using s i by (metis length_map nth_map nth_mem)
    then have "token_vault (map f df) (map ?g (map f df)) (StrCell s) = Some (?g (StrCell s))"
      by (simp only: token_vault_lookup if_True)
    then show ?thesis using s tok by (simp add: generate_token_def HMAC_SECRET_KEY_def)
  qed
  show ?thesis using res len each by blast
qed

theorem tokens_under_fixed_key_witness:
  "\<exists>df_tokenized vault s.
     tokenize_ids [sample_patient ''p1'' 30 ''M'' ''12345''] ''Patient_ID'' = Inr (df_tokenized, vault) \<and>
     length df_tokenized = 1 \<and>
     Patient_ID (sample_patient ''p1'' 30 ''M'' ''12345'') = StrCell s \<and>
     Patient_ID (df_tokenized ! 0) =
       StrCell (hexdigest (hmac_sha256
         (encode_utf8 ''bcse318l-secret-key-for-reproducible-tokenization'') (encode_utf8 s))) \<and>
     vault (StrCell s) = Some (Patient_ID (df_tokenized ! 0))"
proof -
  have "column ''Patient_ID'' = Some Patient_ID"
    "\<forall>r\<in>set [sample_patient ''p1'' 30 ''M'' ''12345'']. \<exists>s. Patient_ID r = StrCell s"
    by (simp_all add: column_def sample_patient_def)
  from tokens_under_fixed_key[OF this] show ?thesis by fastforce
qed

text \<open>
  Claim C4, as stated, fails: the call that tokenizes the identifier \<^verbatim>\<open>p1\<close> has no key among
  its arguments, and the token it produces is the digest under the key written in the
  module.
\<close>

theorem hardcoded_key_counterexample:
  "tokenize_ids [sample_patient ''p1'' 30 ''M'' ''12345''] ''Patient_ID'' =
     Inr ([(sample_patient ''p1'' 30 ''M'' ''12345'')
             \<lparr>Patient_ID := StrCell (hexdigest (hmac_sha256
                 (encode_utf8 ''bcse318l-secret-key-for-reproducible-tokenization'')
                 (encode_utf8 ''p1'')))\<rparr>],
          [StrCell ''p1'' \<mapsto> StrCell (hexdigest (hmac_sha256
                 (encode_utf8 ''bcse318l-secret-key-for-reproducible-tokenization'')
                 (encode_utf8 ''p1'')))])"
  by (simp add: tokenize_ids_def column_def set_column_def sample_patient_def token_vault_def
      generate_token_def HMAC_SECRET_KEY_def)

text \<open>
  The format of a token: the digest of SHA-256 has 32 bytes whatever the message, so every
  token has 64 characters, all of them lowercase hexadecimal digits. (The token is a
  function of the identifier, the key being a constant.)
\<close>

lemma sha256_compress_length: "length hs = 8 \<Longrightarrow> length (sha256_compress hs block) = 8"
proof -
  assume "length hs = 8"
  then obtain h0 h1 h2 h3 h4 h5 h6 h7 where hs: "hs = [h0, h1, h2, h3, h4, h5, h6, h7]"
    by (auto simp: length_Suc_conv numeral_eq_Suc)
  show ?thesis unfolding hs sha256_compress_def by (simp split: prod.splits)
qed

lemma sha256_blocks_length: "length hs = 8 \<Longrightarrow> length (sha256_blocks n hs bs) = 8"
  by (induction n arbitrary: hs bs) (auto simp: sha256_compress_length)

lemma concat_word_bytes_length: "length (concat (map word_bytes ws)) = 4 * length ws"
  by (induction ws) (auto simp: word_bytes_def)

lemma sha256_length: "length (sha256 msg) = 32"
  by (simp add: sha256_def Let_def concat_word_bytes_length sha256_blocks_length sha256_H0_def)

lemma hexdigest_length: "length (hexdigest bs) = 2 * length bs"
  by (induction bs) (auto simp: hexdigest_def)

lemma hex_char_table: "map hex_char [0..<16] = ''0123456789abcdef''"
  by code_simp

lemma hex_char_range: "d < 16 \<Longrightarrow> hex_char d \<in> set ''0123456789abcdef''"
proof -
  assume d: "d < 16"
  then have "hex_char d = map hex_char [0..<16] ! d" by simp
  moreover have "map hex_char [0..<16] ! d \<in> set (map hex_char [0..<16])"
    using d by (intro nth_mem) simp
  ultimately show ?thesis unfolding hex_char_table by simp
qed

lemma hexdigest_chars: "set (hexdigest bs) \<subseteq> set ''0123456789abcdef''"
proof -
  have "hex_char (unat b div 16) \<in> set ''0123456789abcdef'' \<and>
        hex_char (unat b mod 16) \<in> set ''0123456789abcdef''" for b :: byte
  proof -
    have "unat b < 256" using unsigned_less[of b] by simp
    then have "unat b div 16 < 16" "unat b mod 16 < 16" by auto
    then show ?thesis using hex_char_range by blast
  qed
  then show ?thesis unfolding hexdigest_def by (induction bs) auto
qed

lemma hmac_sha256_length: "length (hmac_sha256 key msg) = 32"
  by (simp add: hmac_sha256_def Let_def sha256_length)

lemma generate_token_format:
  "length (generate_token v) = 64 \<and> set (generate_token v) \<subseteq> set ''0123456789abcdef''"
  by (simp add: generate_token_def hexdigest_length hmac_sha256_length hexdigest_chars del: set_simps)

end
